theory Spec2Isabelle
  imports Main "HOL-Library.Word"
begin

section \<open>JavaScript strings\<close>

text \<open>
  A JavaScript string is a sequence of UTF-16 code units; \<open>length\<close> counts code units.
  String literals of the source are ASCII and are written \<open>js ''...''\<close>.
\<close>

type_synonym jschar = "16 word"
type_synonym jsstring = "jschar list"

definition cu :: "char \<Rightarrow> jschar" where
  "cu c = of_char c"

definition js :: "string \<Rightarrow> jsstring" where
  "js s = map cu s"

text \<open>
  The code units removed by \<open>String.prototype.trim\<close> and matched by \<open>\s\<close>: the
  WhiteSpace and LineTerminator productions of ECMAScript.
\<close>

definition is_whitespace :: "jschar \<Rightarrow> bool" where
  "is_whitespace c \<longleftrightarrow>
     c = 0x09 \<or> c = 0x0A \<or> c = 0x0B \<or> c = 0x0C \<or> c = 0x0D \<or> c = 0x20 \<or>
     c = 0xA0 \<or> c = 0x1680 \<or> (0x2000 \<le> c \<and> c \<le> 0x200A) \<or>
     c = 0x2028 \<or> c = 0x2029 \<or> c = 0x202F \<or> c = 0x205F \<or> c = 0x3000 \<or>
     c = 0xFEFF"

text \<open>\<open>\d\<close> is \<open>[0-9]\<close>; \<open>\D\<close> is its complement.\<close>

definition is_digit :: "jschar \<Rightarrow> bool" where
  "is_digit c \<longleftrightarrow> 0x30 \<le> c \<and> c \<le> 0x39"

definition trim :: "jsstring \<Rightarrow> jsstring" where
  "trim s = rev (dropWhile is_whitespace (rev (dropWhile is_whitespace s)))"

text \<open>\<open>value.replace(/\D/g, '')\<close>: every non-digit code unit is deleted.\<close>

definition strip_non_digits :: "jsstring \<Rightarrow> jsstring" where
  "strip_non_digits s = filter is_digit s"

section \<open>Regular expressions\<close>

text \<open>
  The patterns of the source use character classes (single characters, ranges, \<open>\d\<close>,
  \<open>\s\<close>), sequencing, \<open>?\<close>, \<open>*\<close>, \<open>+\<close> and the bounded repetition \<open>{m,n}\<close>.
  \<open>Zero\<close> (matches nothing) and \<open>One\<close> (matches the empty string) are the two
  patterns that derivatives add.
\<close>

datatype class_item = Ch jschar | Range jschar jschar | Digit | Space

datatype regexp =
    Zero
  | One
  | Class "class_item list"
  | Seq regexp regexp
  | Alt regexp regexp
  | Star regexp
  | Plus regexp
  | Opt regexp
  | Repeat regexp nat nat

fun item_matches :: "class_item \<Rightarrow> jschar \<Rightarrow> bool" where
  "item_matches (Ch a) c = (c = a)"
| "item_matches (Range a b) c = (a \<le> c \<and> c \<le> b)"
| "item_matches Digit c = is_digit c"
| "item_matches Space c = is_whitespace c"

definition in_class :: "class_item list \<Rightarrow> jschar \<Rightarrow> bool" where
  "in_class items c = list_ex (\<lambda>i. item_matches i c) items"

fun nullable :: "regexp \<Rightarrow> bool" where
  "nullable Zero = False"
| "nullable One = True"
| "nullable (Class items) = False"
| "nullable (Seq r s) = (nullable r \<and> nullable s)"
| "nullable (Alt r s) = (nullable r \<or> nullable s)"
| "nullable (Star r) = True"
| "nullable (Plus r) = nullable r"
| "nullable (Opt r) = True"
| "nullable (Repeat r lo hi) = (lo \<le> hi \<and> (lo = 0 \<or> nullable r))"

text \<open>Sequencing and alternation that drop the dead branches of a derivative.\<close>

definition seq :: "regexp \<Rightarrow> regexp \<Rightarrow> regexp" where
  "seq r s = (case r of Zero \<Rightarrow> Zero | One \<Rightarrow> s | _ \<Rightarrow> Seq r s)"

definition alt :: "regexp \<Rightarrow> regexp \<Rightarrow> regexp" where
  "alt r s = (case r of Zero \<Rightarrow> s | _ \<Rightarrow> (case s of Zero \<Rightarrow> r | _ \<Rightarrow> Alt r s))"

fun deriv :: "jschar \<Rightarrow> regexp \<Rightarrow> regexp" where
  "deriv c Zero = Zero"
| "deriv c One = Zero"
| "deriv c (Class items) = (if in_class items c then One else Zero)"
| "deriv c (Seq r s) =
     (if nullable r then alt (seq (deriv c r) s) (deriv c s) else seq (deriv c r) s)"
| "deriv c (Alt r s) = alt (deriv c r) (deriv c s)"
| "deriv c (Star r) = seq (deriv c r) (Star r)"
| "deriv c (Plus r) = seq (deriv c r) (Star r)"
| "deriv c (Opt r) = deriv c r"
| "deriv c (Repeat r lo hi) =
     (if hi = 0 then Zero else seq (deriv c r) (Repeat r (lo - 1) (hi - 1)))"

text \<open>\<open>matches r s\<close>: the whole of \<open>s\<close> matches \<open>r\<close>.\<close>

fun matches :: "regexp \<Rightarrow> jsstring \<Rightarrow> bool" where
  "matches r [] = nullable r"
| "matches r (c # cs) = matches (deriv c r) cs"

text \<open>
  What a pattern matches, as a set of strings: the meaning that \<open>matches\<close> computes
  (lemma \<open>matches_lang\<close>).
\<close>

definition conc :: "jsstring set \<Rightarrow> jsstring set \<Rightarrow> jsstring set" where
  "conc A B = {xs @ ys | xs ys. xs \<in> A \<and> ys \<in> B}"

fun copies :: "nat \<Rightarrow> jsstring set \<Rightarrow> jsstring set" where
  "copies 0 A = {[]}"
| "copies (Suc n) A = conc A (copies n A)"

definition many :: "jsstring set \<Rightarrow> jsstring set" where
  "many A = (\<Union>n. copies n A)"

fun lang :: "regexp \<Rightarrow> jsstring set" where
  "lang Zero = {}"
| "lang One = {[]}"
| "lang (Class items) = {[c] | c. in_class items c}"
| "lang (Seq r s) = conc (lang r) (lang s)"
| "lang (Alt r s) = lang r \<union> lang s"
| "lang (Star r) = many (lang r)"
| "lang (Plus r) = conc (lang r) (many (lang r))"
| "lang (Opt r) = insert [] (lang r)"
| "lang (Repeat r lo hi) = (\<Union>n\<in>{lo..hi}. copies n (lang r))"

text \<open>The strings that may follow a first code unit \<open>c\<close>.\<close>

definition after :: "jschar \<Rightarrow> jsstring set \<Rightarrow> jsstring set" where
  "after c A = {w. c # w \<in> A}"

text \<open>
  A RegExp object for a pattern of the shape \<open>/^source$/flags\<close>, the shape of every
  pattern in \<open>VALIDATION_PATTERNS\<close>. \<open>lastIndex\<close> is the object's one mutable property.
\<close>

record jsregexp =
  source :: regexp
  global :: bool
  sticky :: bool
  lastIndex :: nat

text \<open>
  \<open>RegExp.prototype.test\<close> (RegExpBuiltinExec). Without the \<open>g\<close> and \<open>y\<close> flags the
  search starts at index 0 and \<open>lastIndex\<close> is neither read nor written. With one of
  them the search starts at \<open>lastIndex\<close>; as \<open>^\<close> only holds at index 0 and \<open>$\<close> only
  at the end, a match exists iff \<open>lastIndex\<close> is 0 and the whole string matches, and it
  ends at the end of the string. A match stores its end in \<open>lastIndex\<close>, a failure
  stores 0.
\<close>

definition regexp_test :: "jsregexp \<Rightarrow> jsstring \<Rightarrow> bool \<times> jsregexp" where
  "regexp_test p s =
     (if global p \<or> sticky p then
        (if lastIndex p = 0 \<and> matches (source p) s
         then (True, p\<lparr>lastIndex := length s\<rparr>)
         else (False, p\<lparr>lastIndex := 0\<rparr>))
      else (matches (source p) s, p))"

section \<open>Validation patterns, messages and rules\<close>

definition alnum :: "class_item list" where
  "alnum = [Range (cu CHR ''a'') (cu CHR ''z''), Range (cu CHR ''A'') (cu CHR ''Z''),
            Range (cu CHR ''0'') (cu CHR ''9'')]"

text \<open>\<open>[a-zA-Z0-9](?:[a-zA-Z0-9-]{0,61}[a-zA-Z0-9])?\<close>, one label of a domain.\<close>

definition domain_label :: regexp where
  "domain_label =
     Seq (Class alnum)
         (Opt (Seq (Repeat (Class (alnum @ [Ch (cu CHR ''-'')])) 0 61) (Class alnum)))"

definition EMAIL_source :: regexp where
  "EMAIL_source =
     Seq (Plus (Class (alnum @ map (Ch \<circ> cu)
            [CHR ''.'', CHR ''!'', CHR ''#'', CHR ''$'', CHR ''%'', CHR ''&'', CHR 0x27,
             CHR ''*'', CHR ''+'', CHR ''/'', CHR ''='', CHR ''?'', CHR ''^'', CHR ''_'',
             CHR 0x60, CHR ''{'', CHR ''|'', CHR ''}'', CHR ''~'', CHR ''-''])))
    (Seq (Class [Ch (cu CHR ''@'')])
    (Seq domain_label
         (Star (Seq (Class [Ch (cu CHR ''.'')]) domain_label))))"

definition PHONE_source :: regexp where
  "PHONE_source =
     Plus (Class ([Digit, Space] @ map (Ch \<circ> cu)
            [CHR ''-'', CHR ''('', CHR '')'', CHR ''+'', CHR ''.'']))"

definition NAME_source :: regexp where
  "NAME_source =
     Plus (Class ([Range (cu CHR ''a'') (cu CHR ''z''), Range (cu CHR ''A'') (cu CHR ''Z''),
                   Space] @ map (Ch \<circ> cu) [CHR ''-'', CHR 0x27, CHR ''.'']))"

text \<open>A regular expression literal without flags.\<close>

definition literal :: "regexp \<Rightarrow> jsregexp" where
  "literal r = \<lparr>source = r, global = False, sticky = False, lastIndex = 0\<rparr>"

definition VALIDATION_PATTERNS_EMAIL :: jsregexp where
  "VALIDATION_PATTERNS_EMAIL = literal EMAIL_source"

definition VALIDATION_PATTERNS_PHONE :: jsregexp where
  "VALIDATION_PATTERNS_PHONE = literal PHONE_source"

definition VALIDATION_PATTERNS_NAME :: jsregexp where
  "VALIDATION_PATTERNS_NAME = literal NAME_source"

definition ERROR_MESSAGES_REQUIRED :: string where
  "ERROR_MESSAGES_REQUIRED = ''This field is required''"

definition ERROR_MESSAGES_EMAIL_INVALID :: string where
  "ERROR_MESSAGES_EMAIL_INVALID = ''Please enter a valid email address''"

definition ERROR_MESSAGES_PHONE_INVALID :: string where
  "ERROR_MESSAGES_PHONE_INVALID = ''Please enter a valid phone number''"

definition ERROR_MESSAGES_NAME_INVALID :: string where
  "ERROR_MESSAGES_NAME_INVALID =
     ''Please enter a valid name (letters, spaces, hyphens, and apostrophes only)''"

definition ERROR_MESSAGES_MESSAGE_TOO_SHORT :: string where
  "ERROR_MESSAGES_MESSAGE_TOO_SHORT = ''Message must be at least 10 characters long''"

definition ERROR_MESSAGES_PHONE_TOO_SHORT :: string where
  "ERROR_MESSAGES_PHONE_TOO_SHORT = ''Phone number must be at least 10 digits''"

definition ERROR_MESSAGES_PHONE_TOO_LONG :: string where
  "ERROR_MESSAGES_PHONE_TOO_LONG = ''Phone number must not exceed 20 digits''"

text \<open>
  A rule set. Each property may be absent from the object: an absent \<open>required\<close> is
  falsy, an absent \<open>pattern\<close>, \<open>minLength\<close> or \<open>maxLength\<close> is \<open>None\<close>, and
  \<open>errorMessages\<close> is an object from property names to messages when it is there.
\<close>

record rules =
  required :: bool
  pattern :: "jsregexp option"
  minLength :: "int option"
  maxLength :: "int option"
  errorMessages :: "(string \<rightharpoonup> string) option"

definition FIELD_RULES_name :: rules where
  "FIELD_RULES_name =
     \<lparr>required = True,
      pattern = Some VALIDATION_PATTERNS_NAME,
      minLength = Some 2,
      maxLength = Some 100,
      errorMessages = Some
        [''required'' \<mapsto> ERROR_MESSAGES_REQUIRED,
         ''pattern'' \<mapsto> ERROR_MESSAGES_NAME_INVALID,
         ''minLength'' \<mapsto> ''Name must be at least 2 characters long'',
         ''maxLength'' \<mapsto> ''Name must not exceed 100 characters'']\<rparr>"

definition FIELD_RULES_email :: rules where
  "FIELD_RULES_email =
     \<lparr>required = True,
      pattern = Some VALIDATION_PATTERNS_EMAIL,
      minLength = None,
      maxLength = Some 254,
      errorMessages = Some
        [''required'' \<mapsto> ERROR_MESSAGES_REQUIRED,
         ''pattern'' \<mapsto> ERROR_MESSAGES_EMAIL_INVALID,
         ''maxLength'' \<mapsto> ''Email must not exceed 254 characters'']\<rparr>"

definition FIELD_RULES_phone :: rules where
  "FIELD_RULES_phone =
     \<lparr>required = True,
      pattern = Some VALIDATION_PATTERNS_PHONE,
      minLength = Some 10,
      maxLength = Some 20,
      errorMessages = Some
        [''required'' \<mapsto> ERROR_MESSAGES_REQUIRED,
         ''pattern'' \<mapsto> ERROR_MESSAGES_PHONE_INVALID,
         ''minLength'' \<mapsto> ERROR_MESSAGES_PHONE_TOO_SHORT,
         ''maxLength'' \<mapsto> ERROR_MESSAGES_PHONE_TOO_LONG]\<rparr>"

definition FIELD_RULES_service :: rules where
  "FIELD_RULES_service =
     \<lparr>required = True,
      pattern = None,
      minLength = None,
      maxLength = None,
      errorMessages = Some [''required'' \<mapsto> ERROR_MESSAGES_REQUIRED]\<rparr>"

definition FIELD_RULES_message :: rules where
  "FIELD_RULES_message =
     \<lparr>required = True,
      pattern = None,
      minLength = Some 10,
      maxLength = Some 1000,
      errorMessages = Some
        [''required'' \<mapsto> ERROR_MESSAGES_REQUIRED,
         ''minLength'' \<mapsto> ERROR_MESSAGES_MESSAGE_TOO_SHORT,
         ''maxLength'' \<mapsto> ''Message must not exceed 1000 characters'']\<rparr>"

text \<open>The table itself: the five properties that the object literal defines.\<close>

definition FIELD_RULES :: "string \<Rightarrow> rules option" where
  "FIELD_RULES fieldName =
     (if fieldName = ''name'' then Some FIELD_RULES_name
      else if fieldName = ''email'' then Some FIELD_RULES_email
      else if fieldName = ''phone'' then Some FIELD_RULES_phone
      else if fieldName = ''service'' then Some FIELD_RULES_service
      else if fieldName = ''message'' then Some FIELD_RULES_message
      else None)"

text \<open>
  The property names that every object inherits from \<open>Object.prototype\<close>. Each of
  them holds a function, and \<open>__proto__\<close> holds \<open>Object.prototype\<close> itself: a
  truthy value on which \<open>required\<close>, \<open>pattern\<close>, \<open>minLength\<close>, \<open>maxLength\<close> and
  \<open>errorMessages\<close> are all absent.
\<close>

definition Object_prototype_names :: "string list" where
  "Object_prototype_names =
     [''constructor'', ''__defineGetter__'', ''__defineSetter__'', ''hasOwnProperty'',
      ''__lookupGetter__'', ''__lookupSetter__'', ''isPrototypeOf'',
      ''propertyIsEnumerable'', ''toString'', ''valueOf'', ''__proto__'',
      ''toLocaleString'']"

definition inherited_value :: rules where
  "inherited_value =
     \<lparr>required = False, pattern = None, minLength = None, maxLength = None,
      errorMessages = None\<rparr>"

text \<open>
  The property read \<open>FIELD_RULES[fieldName]\<close> as the code evaluates it: an entry of
  the table, or else what the object inherits under that name, or else \<open>undefined\<close>.
\<close>

definition FIELD_RULES_get :: "string \<Rightarrow> rules option" where
  "FIELD_RULES_get fieldName =
     (case FIELD_RULES fieldName of
        Some rs \<Rightarrow> Some rs
      | None \<Rightarrow>
          if fieldName \<in> set Object_prototype_names then Some inherited_value else None)"

section \<open>Validating one field\<close>

text \<open>The properties of a form field that the validation reads.\<close>

record field =
  fname :: string
  ftype :: string
  fvalue :: jsstring

text \<open>
  The \<open>error\<close> property of a result is \<open>null\<close>, a message, or \<open>undefined\<close> when the
  message was read from a property that \<open>errorMessages\<close> does not have.
\<close>

datatype jsval = Undefined | Null | Str string

record validation_result =
  isValid :: bool
  error :: jsval

datatype js_error = TypeError

text \<open>
  \<open>{ isValid: false, error: rules.errorMessages[key] }\<close>. Reading a property of an
  absent \<open>errorMessages\<close> throws a TypeError.
\<close>

definition violation :: "rules \<Rightarrow> string \<Rightarrow> js_error + validation_result" where
  "violation rs key =
     (case errorMessages rs of
        None \<Rightarrow> Inl TypeError
      | Some em \<Rightarrow>
          Inr \<lparr>isValid = False,
               error = (case em key of None \<Rightarrow> Undefined | Some m \<Rightarrow> Str m)\<rparr>)"

text \<open>
  \<open>fieldType === 'tel' ? value.replace(/\D/g, '').length : value.length\<close>, the
  expression that both length checks evaluate.
\<close>

definition effective_length :: "string \<Rightarrow> jsstring \<Rightarrow> nat" where
  "effective_length fieldType v =
     (if fieldType = ''tel'' then length (strip_non_digits v) else length v)"

text \<open>The minLength and maxLength checks and the final result.\<close>

definition length_checks :: "string \<Rightarrow> jsstring \<Rightarrow> rules \<Rightarrow> js_error + validation_result" where
  "length_checks fieldType v rs =
     (if minLength rs \<noteq> None \<and> int (effective_length fieldType v) < the (minLength rs)
      then violation rs ''minLength''
      else if maxLength rs \<noteq> None \<and> int (effective_length fieldType v) > the (maxLength rs)
      then violation rs ''maxLength''
      else Inr \<lparr>isValid = True, error = Null\<rparr>)"

text \<open>
  \<open>validateField(field, rules)\<close>. The result is the returned object or the exception
  thrown, together with the rule set as the call leaves it (the pattern's \<open>lastIndex\<close>
  may have changed).
\<close>

definition validateField :: "field \<Rightarrow> rules \<Rightarrow> (js_error + validation_result) \<times> rules" where
  "validateField fld rs =
     (let v = trim (fvalue fld);
          fieldType = ftype fld
      in if required rs \<and> v = [] then (violation rs ''required'', rs)
         else if v = [] \<and> \<not> required rs then (Inr \<lparr>isValid = True, error = Null\<rparr>, rs)
         else (case pattern rs of
                 None \<Rightarrow> (length_checks fieldType v rs, rs)
               | Some p \<Rightarrow>
                   (let (ok, p') = regexp_test p v;
                        rs' = rs\<lparr>pattern := Some p'\<rparr>
                    in if \<not> ok then (violation rs' ''pattern'', rs')
                       else (length_checks fieldType v rs', rs'))))"

section \<open>Validating the form\<close>

text \<open>
  What \<open>showError\<close>, \<open>clearError\<close> and \<open>focus\<close> do to the page is recorded as a
  trace of calls. A field is identified by its index in the list that
  \<open>querySelectorAll\<close> returns.
\<close>

datatype dom_action = ShowError nat jsval | ClearError nat | Focus nat

text \<open>
  \<open>validateAndDisplayError(field)\<close>. The rule set is \<open>FIELD_RULES[field.name]\<close>; no
  pattern it can hold carries a flag, so the call leaves the table as it was
  (lemma \<open>FIELD_RULES_unchanged\<close>).
\<close>

definition validateAndDisplayError ::
  "nat \<Rightarrow> field \<Rightarrow> dom_action list \<Rightarrow> js_error + (bool \<times> dom_action list)" where
  "validateAndDisplayError i fld tr =
     (case FIELD_RULES_get (fname fld) of
        None \<Rightarrow> Inr (True, tr)
      | Some rs \<Rightarrow>
          (case fst (validateField fld rs) of
             Inl e \<Rightarrow> Inl e
           | Inr result \<Rightarrow>
               if \<not> isValid result then Inr (False, tr @ [ShowError i (error result)])
               else Inr (True, tr @ [ClearError i])))"

text \<open>
  The \<open>forEach\<close> of \<open>validateForm\<close>, from index \<open>i\<close> on; the state is the variable
  \<open>isValid\<close> (here \<open>valid\<close>) and the trace. An exception ends the loop.
\<close>

fun validateForm_loop ::
  "nat \<Rightarrow> field list \<Rightarrow> bool \<times> dom_action list \<Rightarrow> js_error + (bool \<times> dom_action list)" where
  "validateForm_loop i [] st = Inr st"
| "validateForm_loop i (fld # flds) (valid, tr) =
     (if fname fld \<noteq> [] \<and> FIELD_RULES_get (fname fld) \<noteq> None then
        (case validateAndDisplayError i fld tr of
           Inl e \<Rightarrow> Inl e
         | Inr (fieldValid, tr') \<Rightarrow>
             if \<not> fieldValid
             then validateForm_loop (Suc i) flds
                    (False, if i = 0 then tr' @ [Focus i] else tr')
             else validateForm_loop (Suc i) flds (valid, tr'))
      else validateForm_loop (Suc i) flds (valid, tr))"

definition validateForm ::
  "field list \<Rightarrow> dom_action list \<Rightarrow> js_error + (bool \<times> dom_action list)" where
  "validateForm flds tr = validateForm_loop 0 flds (True, tr)"

section \<open>Properties of rule sets and results\<close>

text \<open>
  The invariant of the data model: \<open>errorMessages\<close> is there, and it has a message
  for each of \<open>pattern\<close>, \<open>minLength\<close> and \<open>maxLength\<close> that the rule set has.
\<close>

definition message_invariant :: "rules \<Rightarrow> bool" where
  "message_invariant rs =
     (case errorMessages rs of
        None \<Rightarrow> False
      | Some em \<Rightarrow>
          (pattern rs \<noteq> None \<longrightarrow> em ''pattern'' \<noteq> None) \<and>
          (minLength rs \<noteq> None \<longrightarrow> em ''minLength'' \<noteq> None) \<and>
          (maxLength rs \<noteq> None \<longrightarrow> em ''maxLength'' \<noteq> None))"

text \<open>The error of a result is one of the messages of the rule set.\<close>

definition error_is_message :: "rules \<Rightarrow> validation_result \<Rightarrow> bool" where
  "error_is_message rs res =
     (case errorMessages rs of
        None \<Rightarrow> False
      | Some em \<Rightarrow> (case error res of Str m \<Rightarrow> m \<in> ran em | _ \<Rightarrow> False))"

text \<open>A field passes when \<open>validateField\<close> returns a result with \<open>isValid\<close> true.\<close>

definition field_passes :: "field \<Rightarrow> rules \<Rightarrow> bool" where
  "field_passes fld rs =
     (case fst (validateField fld rs) of Inl e \<Rightarrow> False | Inr result \<Rightarrow> isValid result)"

text \<open>
  The invariant extended by the one message it leaves out: a rule set with
  \<open>required\<close> set has a \<open>required\<close> message.
\<close>

definition messages_complete :: "rules \<Rightarrow> bool" where
  "messages_complete rs =
     (message_invariant rs \<and>
      (required rs \<longrightarrow>
         (case errorMessages rs of None \<Rightarrow> False | Some em \<Rightarrow> em ''required'' \<noteq> None)))"

text \<open>Every field of the list whose name has a rule set in \<open>FIELD_RULES\<close> passes.\<close>

definition registered_pass :: "field list \<Rightarrow> bool" where
  "registered_pass flds \<longleftrightarrow>
     (\<forall>f\<in>set flds. \<forall>rs. FIELD_RULES (fname f) = Some rs \<longrightarrow> field_passes f rs)"

section \<open>Example inputs\<close>

definition email_no_tld :: field where
  "email_no_tld = \<lparr>fname = ''email'', ftype = ''email'', fvalue = js ''user@example''\<rparr>"

definition phone_formatted :: field where
  "phone_formatted = \<lparr>fname = ''phone'', ftype = ''tel'', fvalue = js ''+1 (234) 567-8900''\<rparr>"

definition phone_nine_digits :: field where
  "phone_nine_digits = \<lparr>fname = ''phone'', ftype = ''tel'', fvalue = js ''(123) 456-789''\<rparr>"


definition name_digit :: field where
  "name_digit = \<lparr>fname = ''name'', ftype = ''text'', fvalue = js ''7''\<rparr>"

definition name_short :: field where
  "name_short = \<lparr>fname = ''name'', ftype = ''text'', fvalue = js ''J''\<rparr>"

definition email_short :: field where
  "email_short = \<lparr>fname = ''email'', ftype = ''email'', fvalue = js ''a@b.c''\<rparr>"

definition honeypot :: field where
  "honeypot = \<lparr>fname = ''website'', ftype = ''text'', fvalue = []\<rparr>"

text \<open>A field whose name is a property that \<open>FIELD_RULES\<close> inherits.\<close>

definition inherited_name :: field where
  "inherited_name = \<lparr>fname = ''toString'', ftype = ''text'', fvalue = js ''x''\<rparr>"


text \<open>\<open>/^[a-z]+$/\<close> and \<open>/^[a-z]+$/g\<close>.\<close>

definition lowercase :: jsregexp where
  "lowercase = literal (Plus (Class [Range (cu CHR ''a'') (cu CHR ''z'')]))"

definition lowercase_global :: jsregexp where
  "lowercase_global = lowercase\<lparr>global := True\<rparr>"

text \<open>
  \<open>{ required: false, pattern: /^[a-z]+$/, errorMessages: { pattern: 'Invalid format' } }\<close>,
  the rule set of the test for optional fields, and the same with the \<open>g\<close> flag.
\<close>

definition optional_rules :: rules where
  "optional_rules =
     \<lparr>required = False, pattern = Some lowercase, minLength = None, maxLength = None,
      errorMessages = Some [''pattern'' \<mapsto> ''Invalid format'']\<rparr>"

definition global_rules :: rules where
  "global_rules = optional_rules\<lparr>pattern := Some lowercase_global\<rparr>"

definition optional_blank :: field where
  "optional_blank = \<lparr>fname = ''optional'', ftype = ''text'', fvalue = js ''  ''\<rparr>"

definition optional_abc :: field where
  "optional_abc = \<lparr>fname = ''optional'', ftype = ''text'', fvalue = js ''abc''\<rparr>"

text \<open>\<open>{ required: true, errorMessages: {} }\<close> and an empty field.\<close>

definition required_only :: rules where
  "required_only =
     \<lparr>required = True, pattern = None, minLength = None, maxLength = None,
      errorMessages = Some Map.empty\<rparr>"

definition empty_field :: field where
  "empty_field = \<lparr>fname = ''custom'', ftype = ''text'', fvalue = []\<rparr>"

section \<open>The matcher computes the language of a pattern\<close>

lemma conc_empty [simp]: "conc {} B = {}" "conc A {} = {}"
  by (auto simp: conc_def)

lemma conc_unit [simp]: "conc {[]} B = B" "conc A {[]} = A"
  by (auto simp: conc_def)

lemma after_nil [simp]: "after c {[]} = {}" "after c {} = {}"
  by (auto simp: after_def)

lemma conc_Un_left: "conc (A \<union> A') B = conc A B \<union> conc A' B"
  by (auto simp: conc_def)

lemma conc_UN_right: "conc A (\<Union>i\<in>I. B i) = (\<Union>i\<in>I. conc A (B i))"
  by (auto simp: conc_def)

lemma nil_in_conc: "[] \<in> conc A B \<longleftrightarrow> [] \<in> A \<and> [] \<in> B"
  by (auto simp: conc_def)

lemma after_conc:
  "after c (conc A B) = conc (after c A) B \<union> (if [] \<in> A then after c B else {})"
proof (intro set_eqI iffI)
  fix w
  assume "w \<in> after c (conc A B)"
  then obtain xs ys where split: "c # w = xs @ ys" "xs \<in> A" "ys \<in> B"
    by (auto simp: after_def conc_def)
  show "w \<in> conc (after c A) B \<union> (if [] \<in> A then after c B else {})"
  proof (cases xs)
    case Nil
    with split show ?thesis
      by (auto simp: after_def)
  next
    case (Cons x xs')
    with split have "xs' \<in> after c A" "w = xs' @ ys"
      by (auto simp: after_def)
    with split(3) show ?thesis
      by (auto simp: conc_def)
  qed
next
  fix w
  assume "w \<in> conc (after c A) B \<union> (if [] \<in> A then after c B else {})"
  then consider (left) "w \<in> conc (after c A) B" | (right) "[] \<in> A" "w \<in> after c B"
    by (auto split: if_splits)
  then show "w \<in> after c (conc A B)"
  proof cases
    case left
    then obtain xs ys where "w = xs @ ys" "c # xs \<in> A" "ys \<in> B"
      by (auto simp: conc_def after_def)
    then have "c # w = (c # xs) @ ys \<and> c # xs \<in> A \<and> ys \<in> B"
      by simp
    then show ?thesis
      unfolding after_def conc_def by blast
  next
    case right
    then have "c # w = [] @ (c # w) \<and> [] \<in> A \<and> c # w \<in> B"
      by (simp add: after_def)
    then show ?thesis
      unfolding after_def conc_def by blast
  qed
qed

lemma copies_grows: "[] \<in> A \<Longrightarrow> copies n A \<subseteq> copies (Suc n) A"
proof -
  assume nil: "[] \<in> A"
  show ?thesis
  proof
    fix w
    assume "w \<in> copies n A"
    with nil have "w = [] @ w \<and> [] \<in> A \<and> w \<in> copies n A"
      by simp
    then show "w \<in> copies (Suc n) A"
      unfolding copies.simps conc_def by blast
  qed
qed

lemma conc_mono_right: "B \<subseteq> B' \<Longrightarrow> conc A B \<subseteq> conc A B'"
  by (auto simp: conc_def)

lemma after_copies: "after c (conc A (copies n A)) = conc (after c A) (copies n A)"
proof (induction n)
  case 0
  show ?case
    by simp
next
  case (Suc n)
  have "after c (conc A (copies (Suc n) A)) =
      conc (after c A) (copies (Suc n) A) \<union> (if [] \<in> A then after c (copies (Suc n) A) else {})"
    by (rule after_conc)
  moreover have "[] \<in> A \<Longrightarrow> after c (copies (Suc n) A) \<subseteq> conc (after c A) (copies (Suc n) A)"
    using Suc.IH conc_mono_right [OF copies_grows, of A "after c A" n] by simp
  ultimately show ?case
    by auto
qed

lemma after_UN: "after c (\<Union>i\<in>I. B i) = (\<Union>i\<in>I. after c (B i))"
  by (auto simp: after_def)

lemma after_many: "after c (many A) = conc (after c A) (many A)"
proof -
  have "after c (many A) = (\<Union>n. after c (copies n A))"
    by (auto simp: many_def after_def)
  also have "\<dots> = (\<Union>n. after c (copies (Suc n) A))"
  proof (intro set_eqI iffI)
    fix w
    assume "w \<in> (\<Union>n. after c (copies n A))"
    then obtain n where n: "w \<in> after c (copies n A)"
      by blast
    then obtain m where "n = Suc m"
      by (cases n) auto
    with n show "w \<in> (\<Union>n. after c (copies (Suc n) A))"
      by blast
  qed blast
  also have "\<dots> = (\<Union>n. conc (after c A) (copies n A))"
    by (simp add: after_copies)
  also have "\<dots> = conc (after c A) (many A)"
    by (simp add: many_def conc_UN_right)
  finally show ?thesis .
qed

lemma after_repeat:
  assumes "0 < hi"
  shows "after c (\<Union>n\<in>{lo..hi}. copies n A) =
     conc (after c A) (\<Union>n\<in>{lo - 1..hi - 1}. copies n A)"
proof (intro set_eqI iffI)
  fix w
  assume "w \<in> after c (\<Union>n\<in>{lo..hi}. copies n A)"
  then obtain n where n: "lo \<le> n" "n \<le> hi" "w \<in> after c (copies n A)"
    by (auto simp: after_def)
  then obtain m where m: "n = Suc m"
    by (cases n) auto
  with n have "w \<in> conc (after c A) (copies m A)" "lo - 1 \<le> m" "m \<le> hi - 1"
    by (auto simp: after_copies)
  then show "w \<in> conc (after c A) (\<Union>n\<in>{lo - 1..hi - 1}. copies n A)"
    by (auto simp: conc_UN_right)
next
  fix w
  assume "w \<in> conc (after c A) (\<Union>n\<in>{lo - 1..hi - 1}. copies n A)"
  then obtain m where m: "lo - 1 \<le> m" "m \<le> hi - 1" "w \<in> conc (after c A) (copies m A)"
    by (auto simp: conc_UN_right)
  then have "w \<in> after c (copies (Suc m) A)"
    by (simp add: after_copies)
  moreover from m assms have "lo \<le> Suc m" "Suc m \<le> hi"
    by auto
  ultimately show "w \<in> after c (\<Union>n\<in>{lo..hi}. copies n A)"
    unfolding after_UN by (meson UN_I atLeastAtMost_iff)
qed

lemma nil_in_copies: "[] \<in> copies n A \<longleftrightarrow> n = 0 \<or> [] \<in> A"
  by (induction n) (auto simp: nil_in_conc)

lemma nil_in_many [simp]: "[] \<in> many A"
proof -
  have "[] \<in> copies 0 A"
    by simp
  then show ?thesis
    unfolding many_def by blast
qed

lemma nullable_lang: "nullable r \<longleftrightarrow> [] \<in> lang r"
proof (induction r)
  case (Repeat r lo hi)
  show ?case
  proof
    assume "nullable (Repeat r lo hi)"
    then have "[] \<in> copies lo (lang r)" "lo \<in> {lo..hi}"
      using Repeat.IH by (auto simp: nil_in_copies)
    then show "[] \<in> lang (Repeat r lo hi)"
      unfolding lang.simps by (rule UN_I [rotated])
  next
    assume "[] \<in> lang (Repeat r lo hi)"
    then show "nullable (Repeat r lo hi)"
      using Repeat.IH by (auto simp: nil_in_copies)
  qed
qed (auto simp: nil_in_conc)

lemma lang_seq: "lang (seq r s) = conc (lang r) (lang s)"
  by (cases r) (simp_all add: seq_def)

lemma lang_alt: "lang (alt r s) = lang r \<union> lang s"
  by (cases r; cases s) (simp_all add: alt_def)

lemma after_class: "after c {[x] | x. in_class items x} = (if in_class items c then {[]} else {})"
  by (auto simp: after_def)

lemma after_Un: "after c (A \<union> B) = after c A \<union> after c B"
  by (auto simp: after_def)

lemma after_insert_nil: "after c (insert [] A) = after c A"
  by (auto simp: after_def)

lemma lang_deriv: "lang (deriv c r) = after c (lang r)"
proof (induction r)
  case Zero
  show ?case by simp
next
  case One
  show ?case by simp
next
  case (Class items)
  show ?case by (simp add: after_class)
next
  case (Seq r s)
  then show ?case
    by (simp add: lang_seq lang_alt after_conc nullable_lang)
next
  case (Alt r s)
  then show ?case
    by (simp add: lang_alt after_Un)
next
  case (Star r)
  then show ?case
    by (simp add: lang_seq after_many)
next
  case (Plus r)
  have "after c (conc (lang r) (many (lang r))) =
      conc (after c (lang r)) (many (lang r)) \<union>
      (if [] \<in> lang r then after c (many (lang r)) else {})"
    by (rule after_conc)
  then have "after c (conc (lang r) (many (lang r))) = conc (after c (lang r)) (many (lang r))"
    by (auto simp: after_many)
  with Plus show ?case
    by (simp add: lang_seq)
next
  case (Opt r)
  then show ?case
    by (simp add: after_insert_nil)
next
  case (Repeat r lo hi)
  show ?case
  proof (cases "hi = 0")
    case True
    then have "lang (Repeat r lo hi) \<subseteq> {[]}"
      by auto
    then have "after c (lang (Repeat r lo hi)) = {}"
      by (auto simp: after_def)
    with True show ?thesis
      by simp
  next
    case False
    then have "0 < hi"
      by simp
    from after_repeat [OF this, where c = c and lo = lo and A = "lang r"] False Repeat
    show ?thesis
      by (simp add: lang_seq)
  qed
qed

lemma matches_lang: "matches r s \<longleftrightarrow> s \<in> lang r"
proof (induction s arbitrary: r)
  case Nil
  show ?case
    by (simp add: nullable_lang)
next
  case (Cons c cs)
  then show ?case
    by (simp add: lang_deriv after_def)
qed

section \<open>Trimming and testing\<close>

lemma trim_all_whitespace: "\<forall>c\<in>set s. is_whitespace c \<Longrightarrow> trim s = []"
  by (auto simp: trim_def dest: set_dropWhileD)

lemma trim_empty_iff: "trim s = [] \<longleftrightarrow> (\<forall>c\<in>set s. is_whitespace c)"
proof
  assume "trim s = []"
  then have "dropWhile is_whitespace (rev (dropWhile is_whitespace s)) = []"
    by (simp add: trim_def)
  then have all: "\<forall>x\<in>set (dropWhile is_whitespace s). is_whitespace x"
    by (metis dropWhile_eq_Nil_conv set_rev)
  have "dropWhile is_whitespace s = []"
  proof (rule ccontr)
    assume ne: "dropWhile is_whitespace s \<noteq> []"
    then have "\<not> is_whitespace (hd (dropWhile is_whitespace s))"
      by (rule hd_dropWhile)
    moreover from ne have "hd (dropWhile is_whitespace s) \<in> set (dropWhile is_whitespace s)"
      by simp
    ultimately show False
      using all by blast
  qed
  then show "\<forall>c\<in>set s. is_whitespace c"
    by (metis dropWhile_eq_Nil_conv)
next
  assume "\<forall>c\<in>set s. is_whitespace c"
  then show "trim s = []"
    by (rule trim_all_whitespace)
qed

lemma regexp_test_flagless:
  "\<not> global p \<Longrightarrow> \<not> sticky p \<Longrightarrow> regexp_test p s = (matches (source p) s, p)"
  by (simp add: regexp_test_def)

section \<open>One field\<close>


lemma validateField_blank_optional:
  assumes "\<not> required rs" "trim (fvalue fld) = []"
  shows "validateField fld rs = (Inr \<lparr>isValid = True, error = Null\<rparr>, rs)"
  using assms by (simp add: validateField_def)

lemma validateField_pattern_fails:
  assumes "pattern rs = Some p" "errorMessages rs = Some em" "em ''pattern'' = Some msg"
    and "trim (fvalue fld) \<noteq> []" "\<not> fst (regexp_test p (trim (fvalue fld)))"
  shows "fst (validateField fld rs) = Inr \<lparr>isValid = False, error = Str msg\<rparr>"
proof -
  obtain ok p' where t: "regexp_test p (trim (fvalue fld)) = (ok, p')"
    by (cases "regexp_test p (trim (fvalue fld))")
  with assms(5) have "\<not> ok"
    by simp
  with assms(1-4) t show ?thesis
    by (simp add: validateField_def violation_def)
qed

lemma validateField_tel:
  assumes "ftype fld = ''tel''" "trim (fvalue fld) \<noteq> []"
    and "\<forall>p. pattern rs = Some p \<longrightarrow> fst (regexp_test p (trim (fvalue fld)))"
  shows "fst (validateField fld rs) =
     (if minLength rs \<noteq> None \<and>
         int (length (filter is_digit (trim (fvalue fld)))) < the (minLength rs)
      then violation rs ''minLength''
      else if maxLength rs \<noteq> None \<and>
         int (length (filter is_digit (trim (fvalue fld)))) > the (maxLength rs)
      then violation rs ''maxLength''
      else Inr \<lparr>isValid = True, error = Null\<rparr>)"
proof (cases "pattern rs")
  case None
  with assms(1,2) show ?thesis
    by (simp add: validateField_def length_checks_def effective_length_def strip_non_digits_def)
next
  case (Some p)
  obtain ok p' where t: "regexp_test p (trim (fvalue fld)) = (ok, p')"
    by (cases "regexp_test p (trim (fvalue fld))")
  with assms(3) Some have ok
    by simp
  with assms(1,2) Some t show ?thesis
    by (simp add: validateField_def length_checks_def effective_length_def strip_non_digits_def
        violation_def)
qed

lemma validateField_returns:
  assumes "message_invariant rs"
  shows "\<exists>res. fst (validateField fld rs) = Inr res"
  using assms
  by (auto simp: validateField_def message_invariant_def violation_def length_checks_def Let_def
      split: option.splits prod.splits)

lemma validateField_unchanged:
  assumes "\<forall>p. pattern rs = Some p \<longrightarrow> \<not> global p \<and> \<not> sticky p"
  shows "snd (validateField fld rs) = rs"
  using assms
  by (auto simp: validateField_def Let_def regexp_test_flagless split: option.splits prod.splits)

lemma violation_shape:
  assumes "violation rs key = Inr res"
  shows "\<not> isValid res" "error res \<noteq> Null"
    "errorMessages rs = Some em \<Longrightarrow> em key \<noteq> None \<Longrightarrow> error_is_message rs res"
  using assms
  by (auto simp: violation_def error_is_message_def ran_def split: option.splits)

lemma length_checks_shape:
  assumes "length_checks t v rs = Inr res"
  shows "isValid res \<longleftrightarrow> error res = Null"
    and "message_invariant rs \<Longrightarrow> \<not> isValid res \<Longrightarrow> error_is_message rs res"
  using assms
  by (auto simp: length_checks_def message_invariant_def split: if_splits option.splits
      dest: violation_shape)

lemma validateField_shape:
  assumes "fst (validateField fld rs) = Inr res"
  shows "(isValid res \<longleftrightarrow> error res = Null) \<and>
         (messages_complete rs \<and> \<not> isValid res \<longrightarrow> error_is_message rs res)"
proof -
  let ?v = "trim (fvalue fld)"
  consider (req) "required rs" "?v = []"
    | (opt) "\<not> required rs" "?v = []"
    | (nopat) "?v \<noteq> []" "pattern rs = None"
    | (pat) p where "?v \<noteq> []" "pattern rs = Some p"
    by (cases "pattern rs") auto
  then show ?thesis
  proof cases
    case req
    with assms have "violation rs ''required'' = Inr res"
      by (simp add: validateField_def)
    with req show ?thesis
      by (auto simp: messages_complete_def split: option.splits dest: violation_shape)
  next
    case opt
    with assms show ?thesis
      by (auto simp: validateField_def)
  next
    case nopat
    with assms have "length_checks (ftype fld) ?v rs = Inr res"
      by (simp add: validateField_def)
    then show ?thesis
      by (auto simp: messages_complete_def dest: length_checks_shape)
  next
    case pat
    obtain ok p' where t: "regexp_test p ?v = (ok, p')"
      by (cases "regexp_test p ?v")
    let ?rs' = "rs\<lparr>pattern := Some p'\<rparr>"
    have same: "error_is_message ?rs' res = error_is_message rs res"
      "message_invariant rs \<Longrightarrow> message_invariant ?rs'"
      using pat(2)
      by (auto simp: error_is_message_def message_invariant_def split: option.splits)
    show ?thesis
    proof (cases ok)
      case True
      with assms pat t have "length_checks (ftype fld) ?v ?rs' = Inr res"
        by (simp add: validateField_def Let_def)
      from length_checks_shape [OF this] same show ?thesis
        by (auto simp: messages_complete_def)
    next
      case False
      with assms pat t have v: "violation ?rs' ''pattern'' = Inr res"
        by (simp add: validateField_def Let_def)
      have "messages_complete rs \<Longrightarrow> error_is_message ?rs' res"
        using pat(2) violation_shape(3) [OF v]
        by (auto simp: messages_complete_def message_invariant_def split: option.splits)
      with violation_shape(1,2) [OF v] same show ?thesis
        by auto
    qed
  qed
qed

subsection \<open>Scenario B\<close>

text \<open>
  Claim C1 says that \<open>"user@example"\<close> in the email field is rejected with
  "Please enter a valid email address". The pattern ends in a starred group of
  \<open>.label\<close>, which may be empty, so the value matches; it has 12 code units, within
  the bound of 254, and the field is valid.
\<close>

theorem validateField_email_no_tld:
  "fst (validateField email_no_tld FIELD_RULES_email) = Inr \<lparr>isValid = True, error = Null\<rparr>"
  by code_simp

subsection \<open>The first failing check wins\<close>

text \<open>
  Claim C2: for a rule set with a pattern, whatever its length bounds, a value that is
  not empty after trimming and fails the pattern test gets the pattern message.
\<close>

theorem validateField_pattern_first:
  assumes "pattern rs = Some p" "errorMessages rs = Some em" "em ''pattern'' = Some msg"
    and "trim (fvalue fld) \<noteq> []" "\<not> fst (regexp_test p (trim (fvalue fld)))"
  shows "fst (validateField fld rs) = Inr \<lparr>isValid = False, error = Str msg\<rparr>"
  using assms by (rule validateField_pattern_fails)

text \<open>\<open>"7"\<close> as a name fails the pattern and is shorter than the minimum of 2.\<close>

theorem validateField_pattern_first_witness:
  "pattern FIELD_RULES_name = Some VALIDATION_PATTERNS_NAME \<and>
   trim (fvalue name_digit) \<noteq> [] \<and>
   \<not> fst (regexp_test VALIDATION_PATTERNS_NAME (trim (fvalue name_digit))) \<and>
   int (effective_length (ftype name_digit) (trim (fvalue name_digit))) <
     the (minLength FIELD_RULES_name) \<and>
   fst (validateField name_digit FIELD_RULES_name) =
     Inr \<lparr>isValid = False, error = Str ERROR_MESSAGES_NAME_INVALID\<rparr>"
proof -
  have p: "pattern FIELD_RULES_name = Some VALIDATION_PATTERNS_NAME"
    by (simp add: FIELD_RULES_name_def)
  have em: "errorMessages FIELD_RULES_name = Some
        [''required'' \<mapsto> ERROR_MESSAGES_REQUIRED,
         ''pattern'' \<mapsto> ERROR_MESSAGES_NAME_INVALID,
         ''minLength'' \<mapsto> ''Name must be at least 2 characters long'',
         ''maxLength'' \<mapsto> ''Name must not exceed 100 characters'']"
    by (simp add: FIELD_RULES_name_def)
  have m: "[''required'' \<mapsto> ERROR_MESSAGES_REQUIRED,
         ''pattern'' \<mapsto> ERROR_MESSAGES_NAME_INVALID,
         ''minLength'' \<mapsto> ''Name must be at least 2 characters long'',
         ''maxLength'' \<mapsto> ''Name must not exceed 100 characters''] ''pattern'' =
       Some ERROR_MESSAGES_NAME_INVALID"
    by simp
  have v: "trim (fvalue name_digit) \<noteq> []"
    by code_simp
  have t: "\<not> fst (regexp_test VALIDATION_PATTERNS_NAME (trim (fvalue name_digit)))"
    by code_simp
  have l: "int (effective_length (ftype name_digit) (trim (fvalue name_digit))) <
     the (minLength FIELD_RULES_name)"
    by code_simp
  from validateField_pattern_first [OF p em m v t] p v t l show ?thesis
    by simp
qed

subsection \<open>Blank values\<close>



text \<open>
  Claim C6: for a rule set without \<open>required\<close>, a value that is empty after trimming
  is valid with no error, whatever the pattern and the length bounds are.
\<close>

theorem validateField_optional_blank:
  assumes "\<not> required rs" "trim (fvalue fld) = []"
  shows "validateField fld rs = (Inr \<lparr>isValid = True, error = Null\<rparr>, rs)"
  using assms by (rule validateField_blank_optional)

theorem validateField_optional_blank_witness:
  "\<not> required optional_rules \<and> trim (fvalue optional_blank) = [] \<and>
   pattern optional_rules \<noteq> None \<and>
   validateField optional_blank optional_rules =
     (Inr \<lparr>isValid = True, error = Null\<rparr>, optional_rules)"
proof -
  have r: "\<not> required optional_rules"
    by (simp add: optional_rules_def)
  have v: "trim (fvalue optional_blank) = []"
    by code_simp
  have p: "pattern optional_rules \<noteq> None"
    by (simp add: optional_rules_def)
  from validateField_optional_blank [OF r v] r v p show ?thesis
    by simp
qed

subsection \<open>Telephone fields\<close>

text \<open>
  Claim C4: in a field of type \<open>tel\<close> whose value reaches the length checks, both
  checks compare the number of digits of the trimmed value with the bound; and
  \<open>"+1 (234) 567-8900"\<close>, 17 code units with 11 digits, is a valid phone number.
\<close>

theorem validateField_tel_digit_count:
  "(\<forall>fld rs. ftype fld = ''tel'' \<and> trim (fvalue fld) \<noteq> [] \<and>
       (\<forall>p. pattern rs = Some p \<longrightarrow> fst (regexp_test p (trim (fvalue fld)))) \<longrightarrow>
       fst (validateField fld rs) =
         (if minLength rs \<noteq> None \<and>
             int (length (filter is_digit (trim (fvalue fld)))) < the (minLength rs)
          then violation rs ''minLength''
          else if maxLength rs \<noteq> None \<and>
             int (length (filter is_digit (trim (fvalue fld)))) > the (maxLength rs)
          then violation rs ''maxLength''
          else Inr \<lparr>isValid = True, error = Null\<rparr>)) \<and>
   length (trim (fvalue phone_formatted)) = 17 \<and>
   length (filter is_digit (trim (fvalue phone_formatted))) = 11 \<and>
   minLength FIELD_RULES_phone = Some 10 \<and> maxLength FIELD_RULES_phone = Some 20 \<and>
   fst (validateField phone_formatted FIELD_RULES_phone) = Inr \<lparr>isValid = True, error = Null\<rparr>"
proof -
  have "length (trim (fvalue phone_formatted)) = 17"
    by code_simp
  moreover have "length (filter is_digit (trim (fvalue phone_formatted))) = 11"
    by code_simp
  moreover have "minLength FIELD_RULES_phone = Some 10 \<and> maxLength FIELD_RULES_phone = Some 20"
    by (simp add: FIELD_RULES_phone_def)
  moreover have "fst (validateField phone_formatted FIELD_RULES_phone) =
      Inr \<lparr>isValid = True, error = Null\<rparr>"
    by code_simp
  ultimately show ?thesis
    using validateField_tel by blast
qed

text \<open>
  \<open>"(123) 456-789"\<close> has 13 code units and 9 digits: it is too short for the minimum
  of 10 only because digits are counted.
\<close>

theorem validateField_tel_digit_count_witness:
  "ftype phone_nine_digits = ''tel'' \<and> trim (fvalue phone_nine_digits) \<noteq> [] \<and>
   fst (regexp_test VALIDATION_PATTERNS_PHONE (trim (fvalue phone_nine_digits))) \<and>
   length (trim (fvalue phone_nine_digits)) = 13 \<and>
   fst (validateField phone_nine_digits FIELD_RULES_phone) =
     Inr \<lparr>isValid = False, error = Str ERROR_MESSAGES_PHONE_TOO_SHORT\<rparr>"
proof -
  have ty: "ftype phone_nine_digits = ''tel''"
    by (simp add: phone_nine_digits_def)
  have v: "trim (fvalue phone_nine_digits) \<noteq> []"
    by code_simp
  have t: "fst (regexp_test VALIDATION_PATTERNS_PHONE (trim (fvalue phone_nine_digits)))"
    by code_simp
  have p: "\<forall>p. pattern FIELD_RULES_phone = Some p \<longrightarrow>
      fst (regexp_test p (trim (fvalue phone_nine_digits)))"
    using t by (simp add: FIELD_RULES_phone_def)
  have n: "length (trim (fvalue phone_nine_digits)) = 13"
    by code_simp
  have d: "length (filter is_digit (trim (fvalue phone_nine_digits))) = 9"
    by code_simp
  have lo: "minLength FIELD_RULES_phone = Some 10"
    by (simp add: FIELD_RULES_phone_def)
  have viol: "violation FIELD_RULES_phone ''minLength'' =
      Inr \<lparr>isValid = False, error = Str ERROR_MESSAGES_PHONE_TOO_SHORT\<rparr>"
    by (simp add: violation_def FIELD_RULES_phone_def)
  from validateField_tel_digit_count ty v p
  have "fst (validateField phone_nine_digits FIELD_RULES_phone) =
      (if minLength FIELD_RULES_phone \<noteq> None \<and>
           int (length (filter is_digit (trim (fvalue phone_nine_digits)))) <
             the (minLength FIELD_RULES_phone)
       then violation FIELD_RULES_phone ''minLength''
       else if maxLength FIELD_RULES_phone \<noteq> None \<and>
           int (length (filter is_digit (trim (fvalue phone_nine_digits)))) >
             the (maxLength FIELD_RULES_phone)
       then violation FIELD_RULES_phone ''maxLength''
       else Inr \<lparr>isValid = True, error = Null\<rparr>)"
    by blast
  with d lo viol ty v t n show ?thesis
    by simp
qed

subsection \<open>No exception\<close>

text \<open>
  Claim C9: for a rule set that satisfies the message invariant, \<open>validateField\<close>
  throws nothing: the call returns a result object, for every field.
\<close>

theorem validateField_never_throws:
  assumes "message_invariant rs"
  shows "\<exists>res. fst (validateField fld rs) = Inr res"
  using assms by (rule validateField_returns)

theorem validateField_never_throws_witness:
  "message_invariant FIELD_RULES_message \<and>
   (\<exists>res. fst (validateField name_short FIELD_RULES_message) = Inr res)"
proof -
  have inv: "message_invariant FIELD_RULES_message"
    by (simp add: message_invariant_def FIELD_RULES_message_def)
  from validateField_never_throws [OF inv] inv show ?thesis
    by blast
qed

subsection \<open>The shape of a result\<close>

text \<open>
  Claim C10 says that the error of an invalid result is always one of the messages of
  the rule set. A rule set with \<open>required\<close> set and no \<open>required\<close> message gives an
  empty field the error \<open>undefined\<close>.
\<close>

theorem validateField_missing_message_counterexample:
  "fst (validateField empty_field required_only) =
     Inr \<lparr>isValid = False, error = Undefined\<rparr> \<and>
   \<not> error_is_message required_only \<lparr>isValid = False, error = Undefined\<rparr>"
  by (simp add: validateField_def empty_field_def required_only_def trim_def violation_def
      error_is_message_def)

text \<open>
  Claim C10, amended: in every result that \<open>validateField\<close> returns, \<open>isValid\<close> is
  true iff \<open>error\<close> is \<open>null\<close>; and when the rule set has a message for every check
  it turns on (\<open>required\<close> included), the error of an invalid result is one of the
  messages of \<open>errorMessages\<close>.
\<close>

theorem validateField_result_shape:
  assumes "fst (validateField fld rs) = Inr res"
  shows "(isValid res \<longleftrightarrow> error res = Null) \<and>
         (messages_complete rs \<and> \<not> isValid res \<longrightarrow> error_is_message rs res)"
  using assms by (rule validateField_shape)

theorem validateField_result_shape_witness:
  "fst (validateField name_short FIELD_RULES_name) =
     Inr \<lparr>isValid = False, error = Str ''Name must be at least 2 characters long''\<rparr> \<and>
   messages_complete FIELD_RULES_name \<and>
   error_is_message FIELD_RULES_name
     \<lparr>isValid = False, error = Str ''Name must be at least 2 characters long''\<rparr>"
proof -
  have r: "fst (validateField name_short FIELD_RULES_name) =
     Inr \<lparr>isValid = False, error = Str ''Name must be at least 2 characters long''\<rparr>"
    by code_simp
  have c: "messages_complete FIELD_RULES_name"
    by (simp add: messages_complete_def message_invariant_def FIELD_RULES_name_def)
  from validateField_result_shape [OF r] r c show ?thesis
    by simp
qed

subsection \<open>Calling twice\<close>

text \<open>
  Claim C7 says that two calls with the same arguments give the same result for every
  rule set. With the pattern \<open>/^[a-z]+$/g\<close> the first call on \<open>"abc"\<close> matches and
  leaves \<open>lastIndex\<close> at 3; the second call on the same field and the same rule set
  object starts its search there and fails.
\<close>

theorem validateField_global_pattern_counterexample:
  "fst (validateField optional_abc global_rules) = Inr \<lparr>isValid = True, error = Null\<rparr> \<and>
   fst (validateField optional_abc (snd (validateField optional_abc global_rules))) =
     Inr \<lparr>isValid = False, error = Str ''Invalid format''\<rparr>"
  by code_simp

text \<open>
  Claim C7, amended: for a rule set whose pattern, if it has one, carries neither the
  \<open>g\<close> nor the \<open>y\<close> flag, a call leaves the rule set as it was, and a second call with
  the same field returns what the first returned.
\<close>

theorem validateField_repeatable:
  assumes "\<forall>p. pattern rs = Some p \<longrightarrow> \<not> global p \<and> \<not> sticky p"
  shows "snd (validateField fld rs) = rs \<and>
         fst (validateField fld (snd (validateField fld rs))) = fst (validateField fld rs)"
  using validateField_unchanged [OF assms] by simp

theorem validateField_repeatable_witness:
  "pattern optional_rules = Some lowercase \<and> \<not> global lowercase \<and> \<not> sticky lowercase \<and>
   fst (validateField optional_abc optional_rules) = Inr \<lparr>isValid = True, error = Null\<rparr> \<and>
   fst (validateField optional_abc (snd (validateField optional_abc optional_rules))) =
     Inr \<lparr>isValid = True, error = Null\<rparr>"
proof -
  have f: "\<forall>p. pattern optional_rules = Some p \<longrightarrow> \<not> global p \<and> \<not> sticky p"
    by (simp add: optional_rules_def lowercase_def literal_def)
  have r: "fst (validateField optional_abc optional_rules) = Inr \<lparr>isValid = True, error = Null\<rparr>"
    by code_simp
  have l: "pattern optional_rules = Some lowercase \<and> \<not> global lowercase \<and> \<not> sticky lowercase"
    by (simp add: optional_rules_def lowercase_def literal_def)
  from validateField_repeatable [OF f, of optional_abc] l r show ?thesis
    by simp
qed

section \<open>The rule table and the form\<close>

lemma FIELD_RULES_cases:
  assumes "FIELD_RULES n = Some rs"
  shows "rs = FIELD_RULES_name \<or> rs = FIELD_RULES_email \<or> rs = FIELD_RULES_phone \<or>
         rs = FIELD_RULES_service \<or> rs = FIELD_RULES_message"
  using assms by (auto simp: FIELD_RULES_def split: if_splits)

lemma FIELD_RULES_entries_invariant:
  assumes "FIELD_RULES n = Some rs"
  shows "message_invariant rs"
  using FIELD_RULES_cases [OF assms]
  by (auto simp: message_invariant_def FIELD_RULES_name_def FIELD_RULES_email_def
      FIELD_RULES_phone_def FIELD_RULES_service_def FIELD_RULES_message_def)

lemma FIELD_RULES_flagless:
  assumes "FIELD_RULES n = Some rs" "pattern rs = Some p"
  shows "\<not> global p \<and> \<not> sticky p"
  using FIELD_RULES_cases [OF assms(1)] assms(2)
  by (auto simp: FIELD_RULES_name_def FIELD_RULES_email_def
      FIELD_RULES_phone_def FIELD_RULES_service_def FIELD_RULES_message_def
      VALIDATION_PATTERNS_NAME_def VALIDATION_PATTERNS_EMAIL_def VALIDATION_PATTERNS_PHONE_def
      literal_def)

text \<open>What the lookup finds is an entry of the table or the inherited value.\<close>

lemma FIELD_RULES_get_cases:
  assumes "FIELD_RULES_get n = Some rs"
  shows "FIELD_RULES n = Some rs \<or> (FIELD_RULES n = None \<and> rs = inherited_value)"
  using assms by (auto simp: FIELD_RULES_get_def split: option.splits if_splits)

lemma FIELD_RULES_get_own: "FIELD_RULES n = Some rs \<Longrightarrow> FIELD_RULES_get n = Some rs"
  by (simp add: FIELD_RULES_get_def)

lemma FIELD_RULES_get_None: "FIELD_RULES_get n = None \<Longrightarrow> FIELD_RULES n = None"
  by (auto simp: FIELD_RULES_get_def split: option.splits)

text \<open>The inherited value fails no check and nothing is thrown.\<close>

lemma validateField_inherited:
  "validateField fld inherited_value = (Inr \<lparr>isValid = True, error = Null\<rparr>, inherited_value)"
  by (simp add: validateField_def inherited_value_def length_checks_def Let_def)

lemma field_passes_inherited: "field_passes fld inherited_value"
  by (simp add: field_passes_def validateField_inherited)

lemma FIELD_RULES_unchanged:
  assumes "FIELD_RULES_get n = Some rs"
  shows "snd (validateField fld rs) = rs"
proof -
  from FIELD_RULES_get_cases [OF assms] show ?thesis
  proof
    assume own: "FIELD_RULES n = Some rs"
    from FIELD_RULES_flagless [OF own] show ?thesis
      by (intro validateField_unchanged) blast
  next
    assume "FIELD_RULES n = None \<and> rs = inherited_value"
    then show ?thesis
      by (simp add: validateField_inherited)
  qed
qed

lemma FIELD_RULES_returns:
  assumes "FIELD_RULES_get n = Some rs"
  shows "\<exists>res. fst (validateField fld rs) = Inr res"
proof -
  from FIELD_RULES_get_cases [OF assms] show ?thesis
  proof
    assume "FIELD_RULES n = Some rs"
    then have "message_invariant rs"
      by (rule FIELD_RULES_entries_invariant)
    then show ?thesis
      by (rule validateField_returns)
  next
    assume "FIELD_RULES n = None \<and> rs = inherited_value"
    then show ?thesis
      by (simp add: validateField_inherited)
  qed
qed

lemma registered_pass_Cons:
  assumes "FIELD_RULES_get (fname f) = Some rs"
  shows "registered_pass (f # fs) = (field_passes f rs \<and> registered_pass fs)"
proof -
  from FIELD_RULES_get_cases [OF assms] show ?thesis
  proof
    assume "FIELD_RULES (fname f) = Some rs"
    then show ?thesis
      by (simp add: registered_pass_def)
  next
    assume "FIELD_RULES (fname f) = None \<and> rs = inherited_value"
    then show ?thesis
      by (simp add: registered_pass_def field_passes_inherited)
  qed
qed

lemma registered_pass_skip:
  assumes "FIELD_RULES_get (fname f) = None"
  shows "registered_pass (f # fs) = registered_pass fs"
  using FIELD_RULES_get_None [OF assms] by (simp add: registered_pass_def)

lemma FIELD_RULES_get_nonempty: "FIELD_RULES_get n = Some rs \<Longrightarrow> n \<noteq> []"
  by (auto simp: FIELD_RULES_get_def FIELD_RULES_def Object_prototype_names_def
      split: option.splits if_splits)

lemma validateAndDisplayError_found:
  assumes "FIELD_RULES_get (fname fld) = Some rs"
  shows "\<exists>res. fst (validateField fld rs) = Inr res \<and>
      validateAndDisplayError i fld tr =
        Inr (field_passes fld rs,
             tr @ [if isValid res then ClearError i else ShowError i (error res)])"
proof -
  from FIELD_RULES_returns [OF assms] obtain res where "fst (validateField fld rs) = Inr res"
    by blast
  with assms show ?thesis
    by (simp add: validateAndDisplayError_def field_passes_def)
qed

lemma validateForm_loop_result:
  "\<exists>tr'. validateForm_loop i flds (b, tr) = Inr (b \<and> registered_pass flds, tr') \<and>
      set tr \<subseteq> set tr' \<and>
      (\<forall>k<length flds. \<forall>rs res. FIELD_RULES_get (fname (flds ! k)) = Some rs \<and>
          fst (validateField (flds ! k) rs) = Inr res \<longrightarrow>
          (if isValid res then ClearError (i + k) else ShowError (i + k) (error res)) \<in> set tr')"
proof (induction flds arbitrary: i b tr)
  case Nil
  show ?case
    by (simp add: registered_pass_def)
next
  case (Cons f fs)
  show ?case
  proof (cases "FIELD_RULES_get (fname f)")
    case None
    from Cons.IH [of "Suc i" b tr] obtain tr' where
      IH: "validateForm_loop (Suc i) fs (b, tr) = Inr (b \<and> registered_pass fs, tr')"
        "set tr \<subseteq> set tr'"
        "\<forall>k<length fs. \<forall>rs res. FIELD_RULES_get (fname (fs ! k)) = Some rs \<and>
          fst (validateField (fs ! k) rs) = Inr res \<longrightarrow>
          (if isValid res then ClearError (Suc i + k) else ShowError (Suc i + k) (error res)) \<in> set tr'"
      by blast
    have rp: "registered_pass (f # fs) = registered_pass fs"
      using None by (rule registered_pass_skip)
    have "\<forall>k<length (f # fs). \<forall>rs res. FIELD_RULES_get (fname ((f # fs) ! k)) = Some rs \<and>
          fst (validateField ((f # fs) ! k) rs) = Inr res \<longrightarrow>
          (if isValid res then ClearError (i + k) else ShowError (i + k) (error res)) \<in> set tr'"
    proof (intro allI impI)
      fix k rs res
      assume k: "k < length (f # fs)"
        and h: "FIELD_RULES_get (fname ((f # fs) ! k)) = Some rs \<and>
          fst (validateField ((f # fs) ! k) rs) = Inr res"
      show "(if isValid res then ClearError (i + k) else ShowError (i + k) (error res)) \<in> set tr'"
      proof (cases k)
        case 0
        with h None show ?thesis by simp
      next
        case (Suc j)
        with k h have "j < length fs" "FIELD_RULES_get (fname (fs ! j)) = Some rs"
          "fst (validateField (fs ! j) rs) = Inr res"
          by simp_all
        with IH(3) have "(if isValid res then ClearError (Suc i + j)
            else ShowError (Suc i + j) (error res)) \<in> set tr'"
          by blast
        with Suc show ?thesis by (simp split: if_splits)
      qed
    qed
    with IH(1,2) None rp show ?thesis
      by simp
  next
    case (Some rs0)
    from validateAndDisplayError_found [OF Some, of i tr] obtain res0 where
      r0: "fst (validateField f rs0) = Inr res0"
      and v: "validateAndDisplayError i f tr =
        Inr (field_passes f rs0,
             tr @ [if isValid res0 then ClearError i else ShowError i (error res0)])"
      by blast
    define a where "a = (if isValid res0 then ClearError i else ShowError i (error res0))"
    define tr1 where "tr1 = (if \<not> field_passes f rs0 \<and> i = 0 then tr @ [a] @ [Focus i] else tr @ [a])"
    define b1 where "b1 = (b \<and> field_passes f rs0)"
    have ne: "fname f \<noteq> []"
      using Some by (rule FIELD_RULES_get_nonempty)
    have step: "validateForm_loop i (f # fs) (b, tr) = validateForm_loop (Suc i) fs (b1, tr1)"
      using Some v ne by (auto simp: a_def tr1_def b1_def split: if_splits)
    from Cons.IH [of "Suc i" b1 tr1] obtain tr' where
      IH: "validateForm_loop (Suc i) fs (b1, tr1) = Inr (b1 \<and> registered_pass fs, tr')"
        "set tr1 \<subseteq> set tr'"
        "\<forall>k<length fs. \<forall>rs res. FIELD_RULES_get (fname (fs ! k)) = Some rs \<and>
          fst (validateField (fs ! k) rs) = Inr res \<longrightarrow>
          (if isValid res then ClearError (Suc i + k) else ShowError (Suc i + k) (error res)) \<in> set tr'"
      by blast
    have rp: "registered_pass (f # fs) = (field_passes f rs0 \<and> registered_pass fs)"
      using Some by (rule registered_pass_Cons)
    have sub: "set tr \<subseteq> set tr'" and a_in: "a \<in> set tr'"
      using IH(2) by (auto simp: tr1_def split: if_splits)
    have "\<forall>k<length (f # fs). \<forall>rs res. FIELD_RULES_get (fname ((f # fs) ! k)) = Some rs \<and>
          fst (validateField ((f # fs) ! k) rs) = Inr res \<longrightarrow>
          (if isValid res then ClearError (i + k) else ShowError (i + k) (error res)) \<in> set tr'"
    proof (intro allI impI)
      fix k rs res
      assume k: "k < length (f # fs)"
        and h: "FIELD_RULES_get (fname ((f # fs) ! k)) = Some rs \<and>
          fst (validateField ((f # fs) ! k) rs) = Inr res"
      show "(if isValid res then ClearError (i + k) else ShowError (i + k) (error res)) \<in> set tr'"
      proof (cases k)
        case 0
        with h Some r0 have "rs = rs0" "res = res0" by simp_all
        with 0 a_in show ?thesis by (simp add: a_def split: if_splits)
      next
        case (Suc j)
        with k h have "j < length fs" "FIELD_RULES_get (fname (fs ! j)) = Some rs"
          "fst (validateField (fs ! j) rs) = Inr res"
          by simp_all
        with IH(3) have "(if isValid res then ClearError (Suc i + j)
            else ShowError (Suc i + j) (error res)) \<in> set tr'"
          by blast
        with Suc show ?thesis by (simp split: if_splits)
      qed
    qed
    with step IH(1) sub rp show ?thesis
      by (auto simp: b1_def)
  qed
qed

text \<open>
  Claim C8: every rule set of \<open>FIELD_RULES\<close> satisfies the message invariant: it has
  a message for each of \<open>pattern\<close>, \<open>minLength\<close> and \<open>maxLength\<close> that it has.
\<close>

theorem FIELD_RULES_message_invariant:
  assumes "FIELD_RULES n = Some rs"
  shows "message_invariant rs"
  using assms by (rule FIELD_RULES_entries_invariant)

theorem FIELD_RULES_message_invariant_witness:
  "FIELD_RULES ''email'' = Some FIELD_RULES_email \<and>
   pattern FIELD_RULES_email \<noteq> None \<and> maxLength FIELD_RULES_email \<noteq> None \<and>
   message_invariant FIELD_RULES_email"
proof -
  have e: "FIELD_RULES ''email'' = Some FIELD_RULES_email"
    by (simp add: FIELD_RULES_def)
  have p: "pattern FIELD_RULES_email \<noteq> None \<and> maxLength FIELD_RULES_email \<noteq> None"
    by (simp add: FIELD_RULES_email_def)
  from FIELD_RULES_message_invariant [OF e] e p show ?thesis
    by simp
qed

text \<open>
  Claim C5: \<open>validateForm\<close> returns true iff every field whose name has a rule set
  in \<open>FIELD_RULES\<close> passes \<open>validateField\<close>, and the loop reaches every field for
  which \<open>FIELD_RULES[field.name]\<close> is truthy (the registered ones, and those under an
  inherited name, which always pass): the trace it leaves has the \<open>showError\<close> call of
  each invalid one, with the error of its result, and the \<open>clearError\<close> call of each
  valid one.
\<close>

theorem validateForm_all_registered_fields:
  "\<exists>tr'. validateForm flds tr = Inr (registered_pass flds, tr') \<and>
     (\<forall>k<length flds. \<forall>rs. FIELD_RULES_get (fname (flds ! k)) = Some rs \<longrightarrow>
        (\<exists>res. fst (validateField (flds ! k) rs) = Inr res \<and>
           (if isValid res then ClearError k else ShowError k (error res)) \<in> set tr')) \<and>
     (\<forall>k<length flds. \<forall>rs. FIELD_RULES (fname (flds ! k)) = Some rs \<longrightarrow>
        FIELD_RULES_get (fname (flds ! k)) = Some rs)"
proof -
  from validateForm_loop_result [of 0 flds True tr] obtain tr' where
    r: "validateForm_loop 0 flds (True, tr) = Inr (True \<and> registered_pass flds, tr')"
    and a: "\<forall>k<length flds. \<forall>rs res. FIELD_RULES_get (fname (flds ! k)) = Some rs \<and>
          fst (validateField (flds ! k) rs) = Inr res \<longrightarrow>
          (if isValid res then ClearError (0 + k) else ShowError (0 + k) (error res)) \<in> set tr'"
    by blast
  have "\<forall>k<length flds. \<forall>rs. FIELD_RULES_get (fname (flds ! k)) = Some rs \<longrightarrow>
        (\<exists>res. fst (validateField (flds ! k) rs) = Inr res \<and>
           (if isValid res then ClearError k else ShowError k (error res)) \<in> set tr')"
  proof (intro allI impI)
    fix k rs
    assume k: "k < length flds" and reg: "FIELD_RULES_get (fname (flds ! k)) = Some rs"
    from FIELD_RULES_returns [OF reg] obtain res where
      res: "fst (validateField (flds ! k) rs) = Inr res"
      by blast
    with a k reg have "(if isValid res then ClearError (0 + k)
        else ShowError (0 + k) (error res)) \<in> set tr'"
      by blast
    with res show "\<exists>res. fst (validateField (flds ! k) rs) = Inr res \<and>
           (if isValid res then ClearError k else ShowError k (error res)) \<in> set tr'"
      by auto
  qed
  with r show ?thesis
    by (auto simp: validateForm_def FIELD_RULES_get_own)
qed

text \<open>
  A form with a name that is too short, a valid email, a field without rules and a
  field named \<open>toString\<close>: the name fails first, the email is validated all the same,
  and so is the field with the inherited name.
\<close>

theorem validateForm_all_registered_fields_witness:
  "\<exists>tr'. validateForm [name_short, email_short, honeypot, inherited_name] [] =
       Inr (False, tr') \<and>
     ShowError 0 (Str ''Name must be at least 2 characters long'') \<in> set tr' \<and>
     ClearError 1 \<in> set tr' \<and> ClearError 3 \<in> set tr'"
proof -
  let ?form = "[name_short, email_short, honeypot, inherited_name]"
  have n: "FIELD_RULES (fname name_short) = Some FIELD_RULES_name"
    by (simp add: FIELD_RULES_def name_short_def)
  have n': "FIELD_RULES_get (fname name_short) = Some FIELD_RULES_name"
    using n by (rule FIELD_RULES_get_own)
  have e: "FIELD_RULES_get (fname email_short) = Some FIELD_RULES_email"
    by (simp add: FIELD_RULES_get_def FIELD_RULES_def email_short_def)
  have t: "FIELD_RULES_get (fname inherited_name) = Some inherited_value"
    by (simp add: FIELD_RULES_get_def FIELD_RULES_def inherited_name_def
        Object_prototype_names_def)
  have rn: "fst (validateField name_short FIELD_RULES_name) =
     Inr \<lparr>isValid = False, error = Str ''Name must be at least 2 characters long''\<rparr>"
    by code_simp
  have re: "fst (validateField email_short FIELD_RULES_email) =
     Inr \<lparr>isValid = True, error = Null\<rparr>"
    by code_simp
  have rt: "fst (validateField inherited_name inherited_value) =
     Inr \<lparr>isValid = True, error = Null\<rparr>"
    by (simp add: validateField_inherited)
  have "\<not> field_passes name_short FIELD_RULES_name"
    using rn by (simp add: field_passes_def)
  with n have np: "\<not> registered_pass ?form"
    by (auto simp: registered_pass_def)
  from validateForm_all_registered_fields [of ?form "[]"] obtain tr' where
    r: "validateForm ?form [] = Inr (registered_pass ?form, tr')"
    and a: "\<forall>k<length ?form. \<forall>rs. FIELD_RULES_get (fname (?form ! k)) = Some rs \<longrightarrow>
        (\<exists>res. fst (validateField (?form ! k) rs) = Inr res \<and>
           (if isValid res then ClearError k else ShowError k (error res)) \<in> set tr')"
    by blast
  from a [rule_format, of 0 FIELD_RULES_name] n' rn
  have s0: "ShowError 0 (Str ''Name must be at least 2 characters long'') \<in> set tr'"
    by auto
  from a [rule_format, of 1 FIELD_RULES_email] e re
  have c1: "ClearError 1 \<in> set tr'"
    by auto
  from a [rule_format, of 3 inherited_value] t rt
  have c3: "ClearError 3 \<in> set tr'"
    by auto
  from r np s0 c1 c3 show ?thesis
    by auto
qed

end
